theory Spec2Isabelle
  imports Complex_Main "HOL-Library.Multiset"
begin

section \<open>Exceptions\<close>

text \<open>
  The Python exceptions that the modelled functions can raise. A function that may raise
  returns \<open>error + 'a\<close>, with \<open>Inl\<close> for the exception.
\<close>

datatype error =
    AssertionError
  | TypeError
  | ValueError
  | IndexError
  | ZeroDivisionError
  | EinopsError

section \<open>Shuffling arrays together (ml\_intuition/data/utils.py)\<close>

text \<open>
  \<open>np.random.RandomState(seed).shuffle(array)\<close> is NumPy's Fisher-Yates loop over the first
  axis: for \<open>i = n - 1\<close> down to \<open>1\<close> it draws \<open>j = random_interval(state, i)\<close> and swaps the
  entries \<open>i\<close> and \<open>j\<close>. The generator belongs to NumPy, so it is a parameter of the model:
  \<open>RandomState\<close> maps a seed to a generator state and \<open>random_interval\<close> maps a state and a bound
  \<open>i\<close> to the drawn number and the next state. NumPy guarantees that the drawn number is at
  most \<open>i\<close>; the theorems below assume exactly that about the parameter.
\<close>

definition swap :: "nat \<Rightarrow> nat \<Rightarrow> 'a list \<Rightarrow> 'a list" where
  "swap i j xs = xs[i := xs ! j, j := xs ! i]"

fun shuffle_loop :: "('g \<Rightarrow> nat \<Rightarrow> nat \<times> 'g) \<Rightarrow> nat \<Rightarrow> 'g \<Rightarrow> 'a list \<Rightarrow> 'a list" where
  "shuffle_loop random_interval 0 g xs = xs"
| "shuffle_loop random_interval (Suc k) g xs =
     (case random_interval g (Suc k) of
        (j, g') \<Rightarrow> shuffle_loop random_interval k g' (swap (Suc k) j xs))"

definition shuffle ::
  "(int \<Rightarrow> 'g) \<Rightarrow> ('g \<Rightarrow> nat \<Rightarrow> nat \<times> 'g) \<Rightarrow> int \<Rightarrow> 'a list \<Rightarrow> 'a list" where
  "shuffle RandomState random_interval seed array =
     shuffle_loop random_interval (length array - 1) (RandomState seed) array"

text \<open>
  \<open>np.random.RandomState(seed)\<close> accepts an integer seed between \<open>0\<close> and \<open>2^32 - 1\<close> and
  raises \<open>ValueError\<close> for any other integer.
\<close>

definition valid_seed :: "int \<Rightarrow> bool" where
  "valid_seed seed = (0 \<le> seed \<and> seed \<le> 2 ^ 32 - 1)"

text \<open>
  \<open>shuffle_arrays_together\<close> works in place. The model takes the arrays and returns the arrays
  as they are when the call ends, together with the exception raised, if any.

  The loop \<open>for array in arrays\<close> creates a fresh \<open>RandomState(seed)\<close> for every array and
  shuffles the array with it. Creating the generator is the first statement of the loop
  body, so a seed that NumPy rejects raises \<open>ValueError\<close> in the first iteration, before any
  array is touched; on an empty list the body never runs.
\<close>

fun shuffle_each ::
  "(int \<Rightarrow> 'g) \<Rightarrow> ('g \<Rightarrow> nat \<Rightarrow> nat \<times> 'g) \<Rightarrow> int \<Rightarrow> 'a list list
     \<Rightarrow> 'a list list \<times> error option" where
  "shuffle_each RandomState random_interval seed [] = ([], None)"
| "shuffle_each RandomState random_interval seed (array # arrays) =
     (if valid_seed seed
      then (case shuffle_each RandomState random_interval seed arrays of
              (arrays', e) \<Rightarrow> (shuffle RandomState random_interval seed array # arrays', e))
      else (array # arrays, Some ValueError))"

text \<open>
  The assertion \<open>all(len(array) == len(arrays[0]) for array in arrays)\<close> is checked before the
  loop; on an empty list the generator expression is never evaluated and the assertion
  holds.
\<close>

definition shuffle_arrays_together ::
  "(int \<Rightarrow> 'g) \<Rightarrow> ('g \<Rightarrow> nat \<Rightarrow> nat \<times> 'g) \<Rightarrow> 'a list list \<Rightarrow> int
     \<Rightarrow> 'a list list \<times> error option" where
  "shuffle_arrays_together RandomState random_interval arrays seed =
     (if list_all (\<lambda>array. length array = length (arrays ! 0)) arrays
      then shuffle_each RandomState random_interval seed arrays
      else (arrays, Some AssertionError))"

text \<open>
  The permutation of the indices \<open>0, ..., n - 1\<close> that a shuffle with the given seed performs
  on an array of length \<open>n\<close>.
\<close>

definition shuffle_perm ::
  "(int \<Rightarrow> 'g) \<Rightarrow> ('g \<Rightarrow> nat \<Rightarrow> nat \<times> 'g) \<Rightarrow> int \<Rightarrow> nat \<Rightarrow> nat list" where
  "shuffle_perm RandomState random_interval seed n =
     shuffle RandomState random_interval seed [0..<n]"

section \<open>Splitting into train, validation and test sets (ml\_intuition/data/utils.py)\<close>

text \<open>
  The \<open>size\<close> arguments are Python numbers, an \<open>int\<close> or a \<open>float\<close>. Floats are modelled as
  reals: the product \<open>len(...) * size\<close> is taken exactly, without the rounding of IEEE
  arithmetic.
\<close>

datatype pynum = PyInt int | PyFloat real

fun num_val :: "pynum \<Rightarrow> real" where
  "num_val (PyInt i) = real_of_int i"
| "num_val (PyFloat x) = x"

text \<open>\<open>np.unique\<close>: the sorted distinct values.\<close>

definition unique :: "'l::linorder list \<Rightarrow> 'l list" where
  "unique ar = sort (remdups ar)"

text \<open>\<open>np.where(labels == label)[0]\<close>: the positions of a label, in increasing order.\<close>

definition where_eq :: "'l list \<Rightarrow> 'l \<Rightarrow> nat list" where
  "where_eq labels label = filter (\<lambda>i. labels ! i = label) [0..<length labels]"

text \<open>\<open>np.concatenate\<close> raises \<open>ValueError\<close> on an empty list of arrays.\<close>

definition concatenate :: "nat list list \<Rightarrow> error + nat list" where
  "concatenate arrays = (if arrays = [] then Inl ValueError else Inr (concat arrays))"

text \<open>
  An index array is an integer array, or the float array \<open>np.arange(size)\<close> that
  \<open>_get_set_indices\<close> returns for a float \<open>size >= 1\<close> without stratification; of the latter
  only the length is kept, since NumPy refuses to index with it.
\<close>

datatype indices = IntIndices "nat list" | FloatIndices nat

text \<open>
  \<open>_get_set_indices(labels, size, stratified)\<close>. Only a float can lie strictly between 0 and
  1, so \<open>int(len(...) * size)\<close> in the first two branches truncates a non-negative float
  product. In the third branch the slice \<open>[:size]\<close> raises \<open>TypeError\<close> for a float \<open>size\<close>, in
  the first iteration of the loop if there is one. The parameter \<open>size\<close> is written \<open>sz\<close>.
\<close>

definition get_set_indices :: "'l::linorder list \<Rightarrow> pynum \<Rightarrow> bool \<Rightarrow> error + indices" where
  "get_set_indices labels sz stratified =
     (let unique_labels = unique labels;
          label_indices = map (where_eq labels) unique_labels
      in if \<not> 0 < num_val sz then Inl AssertionError
         else if num_val sz < 1 \<and> stratified then
           (case concatenate
                   (map (\<lambda>idx. take (nat \<lfloor>real (length idx) * num_val sz\<rfloor>) idx)
                      label_indices) of
              Inl e \<Rightarrow> Inl e
            | Inr train_indices \<Rightarrow> Inr (IntIndices train_indices))
         else if num_val sz < 1 then
           Inr (IntIndices [0..<nat \<lfloor>real (length labels) * num_val sz\<rfloor>])
         else if stratified then
           (case sz of
              PyInt n \<Rightarrow>
                (case concatenate (map (take (nat n)) label_indices) of
                   Inl e \<Rightarrow> Inl e
                 | Inr train_indices \<Rightarrow> Inr (IntIndices train_indices))
            | PyFloat x \<Rightarrow> if label_indices = [] then Inl ValueError else Inl TypeError)
         else
           (case sz of
              PyInt n \<Rightarrow> Inr (IntIndices [0..<nat n])
            | PyFloat x \<Rightarrow> Inr (FloatIndices (nat \<lceil>x\<rceil>))))"

text \<open>
  \<open>array[indices]\<close>: NumPy raises \<open>IndexError\<close> for an index out of bounds and for an index
  array of float type.
\<close>

definition take_indices :: "'a list \<Rightarrow> indices \<Rightarrow> error + 'a list" where
  "take_indices array idx =
     (case idx of
        IntIndices ixs \<Rightarrow>
          if list_all (\<lambda>i. i < length array) ixs then Inr (map (\<lambda>i. array ! i) ixs)
          else Inl IndexError
      | FloatIndices n \<Rightarrow> Inl IndexError)"

text \<open>\<open>np.setdiff1d(ar1, ar2)\<close>: the sorted distinct values of \<open>ar1\<close> that are not in \<open>ar2\<close>.\<close>

definition setdiff1d :: "nat list \<Rightarrow> nat list \<Rightarrow> nat list" where
  "setdiff1d ar1 ar2 = filter (\<lambda>x. x \<notin> set ar2) (unique ar1)"

text \<open>
  Lines 84 to 87 of \<open>train_val_test_split\<close>, on the shuffled labels: the final train, the
  validation and the test indices, in this order. \<open>n\<close> is \<open>len(data)\<close>. The validation indices
  are computed from \<open>labels[train_indices]\<close> with the default \<open>stratified=True\<close>.
\<close>

definition split_indices ::
  "nat \<Rightarrow> 'l::linorder list \<Rightarrow> pynum \<Rightarrow> pynum \<Rightarrow> bool
     \<Rightarrow> error + (nat list \<times> nat list \<times> nat list)" where
  "split_indices n labels train_size val_size stratified =
     (case get_set_indices labels train_size stratified of
        Inl e \<Rightarrow> Inl e
      | Inr train_indices \<Rightarrow>
          (case take_indices labels train_indices of
             Inl e \<Rightarrow> Inl e
           | Inr train_labels \<Rightarrow>
               (case get_set_indices train_labels val_size True of
                  Inl e \<Rightarrow> Inl e
                | Inr val_indices \<Rightarrow>
                    (case train_indices of
                       FloatIndices k \<Rightarrow> Inl IndexError
                     | IntIndices tr \<Rightarrow>
                         (case val_indices of
                            FloatIndices k \<Rightarrow> Inl IndexError
                          | IntIndices va \<Rightarrow>
                              Inr (setdiff1d tr va, va, setdiff1d [0..<n] tr))))))"

text \<open>
  \<open>train_val_test_split\<close>. The call \<open>shuffle_arrays_together([data, labels])\<close> uses the default
  seed 0; the two arrays have different element types, so the model passes them as one list
  over the sum of the two types and reads them back. The result is
  \<open>(train_x, train_y, val_x, val_y, test_x, test_y)\<close>.
\<close>

definition train_val_test_split ::
  "(int \<Rightarrow> 'g) \<Rightarrow> ('g \<Rightarrow> nat \<Rightarrow> nat \<times> 'g) \<Rightarrow> 'a list \<Rightarrow> 'l::linorder list
     \<Rightarrow> pynum \<Rightarrow> pynum \<Rightarrow> bool
     \<Rightarrow> error + ('a list \<times> 'l list \<times> 'a list \<times> 'l list \<times> 'a list \<times> 'l list)" where
  "train_val_test_split RandomState random_interval data labels train_size val_size stratified =
     (case shuffle_arrays_together RandomState random_interval
             [map Inl data, map Inr labels] 0 of
        (arrays, Some e) \<Rightarrow> Inl e
      | (arrays, None) \<Rightarrow>
          (let data' = map projl (arrays ! 0);
               labels' = map projr (arrays ! 1)
           in case split_indices (length data') labels' train_size val_size stratified of
                Inl e \<Rightarrow> Inl e
              | Inr (train_indices, val_indices, test_indices) \<Rightarrow>
                  (case (take_indices data' (IntIndices train_indices),
                         take_indices labels' (IntIndices train_indices),
                         take_indices data' (IntIndices val_indices),
                         take_indices labels' (IntIndices val_indices),
                         take_indices data' (IntIndices test_indices),
                         take_indices labels' (IntIndices test_indices)) of
                     (Inr train_x, Inr train_y, Inr val_x, Inr val_y, Inr test_x, Inr test_y) \<Rightarrow>
                       Inr (train_x, train_y, val_x, val_y, test_x, test_y)
                   | _ \<Rightarrow> Inl IndexError)))"

section \<open>Reassembling a prediction from patches (cloud\_detection/evaluate\_L8CCA.py)\<close>

text \<open>
  Pixel values are floats; the only non-finite value that matters here is \<open>np.inf\<close>, with
  which the output array is filled before the loop. Finite floats are modelled as reals.
\<close>

datatype npfloat = Finite real | PosInf

text \<open>
  A two-dimensional array is a list of rows. The predictions \<open>preds\<close> have the shape
  \<open>(n, dr, dc, 1)\<close>; the last axis has length one and is left out, so \<open>preds\<close> is a list of
  \<open>n\<close> patches, each a list of \<open>dr\<close> rows of \<open>dc\<close> values. NumPy arrays are rectangular: all
  patches have the shape of the first.
\<close>

text \<open>\<open>np.full((h, w, 1), v)\<close>.\<close>

definition full :: "nat \<Rightarrow> nat \<Rightarrow> 'a \<Rightarrow> 'a list list" where
  "full h w v = replicate h (replicate w v)"

text \<open>
  \<open>rearrange(preds, '(r c) dr dc b -> r c dr dc b', r=r, c=c)\<close>: the leading axis is split
  row-major, so that entry \<open>(i, j)\<close> of the result is \<open>preds[i * c + j]\<close>. einops raises when
  the leading axis does not have the length \<open>r * c\<close>, or when \<open>r * c\<close> is zero.
\<close>

definition rearrange :: "nat \<Rightarrow> nat \<Rightarrow> 'a list \<Rightarrow> error + 'a list list" where
  "rearrange r c preds =
     (if r * c = 0 \<or> length preds \<noteq> r * c then Inl EinopsError
      else Inr (map (\<lambda>i. take c (drop (i * c) preds)) [0..<r]))"

text \<open>
  The slice assignment \<open>img[y0:y0+p, x0:x0+p] = patch\<close>. The slice is clipped to the array.
  NumPy broadcasts the right-hand side: an axis of length one of the patch is repeated
  along the slice.
\<close>

definition broadcast_index :: "nat \<Rightarrow> nat \<Rightarrow> nat" where
  "broadcast_index d i = (if d = 1 then 0 else i)"

definition broadcast_value :: "'a list list \<Rightarrow> nat \<Rightarrow> nat \<Rightarrow> 'a" where
  "broadcast_value patch i j =
     patch ! broadcast_index (length patch) i ! broadcast_index (length (patch ! 0)) j"

definition assign_block :: "nat \<Rightarrow> nat \<Rightarrow> nat \<Rightarrow> 'a list list \<Rightarrow> 'a list list \<Rightarrow> 'a list list" where
  "assign_block y0 x0 p patch img =
     map (\<lambda>y. if y0 \<le> y \<and> y < y0 + p
              then map (\<lambda>x. if x0 \<le> x \<and> x < x0 + p
                             then broadcast_value patch (y - y0) (x - x0)
                             else img ! y ! x)
                     [0..<length (img ! y)]
              else img ! y)
       [0..<length img]"

text \<open>
  A patch of shape \<open>(dr, dc, 1)\<close> can be assigned to a slice of shape \<open>(p, p, 1)\<close> when each of
  \<open>dr\<close> and \<open>dc\<close> is \<open>p\<close> or \<open>1\<close>; otherwise NumPy raises \<open>ValueError\<close>.
\<close>

definition broadcastable :: "nat \<Rightarrow> 'a list list \<Rightarrow> bool" where
  "broadcastable p patch =
     ((length patch = p \<or> length patch = 1)
      \<and> (length (patch ! 0) = p \<or> length (patch ! 0) = 1))"

text \<open>
  \<open>get_img_pred\<close>, from the image shape of the generator and the predictions of the model
  on. The data generator and the network are outside this file, so \<open>testgen.img_shape\<close> and
  the result of \<open>model.predict_generator\<close> are arguments; the measured time, the second
  component of the result, is left out. \<open>int(img_shape[0] / patch_size)\<close> is the integer
  quotient, and a patch size of zero raises \<open>ZeroDivisionError\<close>. Every slice of the loop
  lies within the image, and all patches have one shape, so a patch that cannot be
  broadcast raises \<open>ValueError\<close> in the first iteration.
\<close>

definition get_img_pred ::
  "nat \<Rightarrow> nat \<times> nat \<Rightarrow> npfloat list list list \<Rightarrow> error + npfloat list list" where
  "get_img_pred patch_size img_shape preds =
     (if patch_size = 0 then Inl ZeroDivisionError
      else
        let n_r = fst img_shape div patch_size;
            n_c = snd img_shape div patch_size
        in case rearrange n_r n_c preds of
             Inl e \<Rightarrow> Inl e
           | Inr grid \<Rightarrow>
               if \<not> broadcastable patch_size (preds ! 0) then Inl ValueError
               else Inr (fold (\<lambda>r img.
                           fold (\<lambda>c img.
                                   assign_block (r * patch_size) (c * patch_size) patch_size
                                     (grid ! r ! c) img)
                             [0..<n_c] img)
                         [0..<n_r]
                         (full (fst img_shape) (snd img_shape) PosInf)))"

text \<open>
  Modelled from the spec: the tiling of an image into a regular grid of non-overlapping
  patches of \<open>p\<close> by \<open>p\<close> pixels, listed in row-major order. The data generator that tiles a
  scene (\<open>DG_L8CCA\<close>) is not among the sources.
\<close>

definition tile :: "nat \<Rightarrow> 'a list list \<Rightarrow> 'a list list list" where
  "tile p img =
     map (\<lambda>(r, c). map (\<lambda>row. take p (drop (c * p) row)) (take p (drop (r * p) img)))
       (List.product [0..<length img div p] [0..<length (img ! 0) div p])"

text \<open>An array of \<open>h\<close> rows of \<open>w\<close> values.\<close>

definition has_shape :: "nat \<Rightarrow> nat \<Rightarrow> 'a list list \<Rightarrow> bool" where
  "has_shape h w img = (length img = h \<and> list_all (\<lambda>row. length row = w) img)"

section \<open>Overlap metrics (cloud\_detection/losses.py and its tests)\<close>

text \<open>
  The module \<open>cloud_detection/losses.py\<close> is not among the sources; its tests
  (\<open>tests/test_losses.py\<close>) are. The metrics are therefore modelled from the specification
  and checked against the fixtures of the tests. A mask is the list of its pixel values in
  row-major order: every quantity below is a sum over all pixels, so the shape plays no
  role beyond the number of pixels. Floats are modelled as reals.
\<close>

text \<open>
  Modelled from the spec: true positives \<open>sum(pred * truth)\<close>, false positives
  \<open>sum(pred * (1 - truth))\<close>, false negatives \<open>sum((1 - pred) * truth)\<close> and true negatives
  \<open>sum((1 - pred) * (1 - truth))\<close>; \<open>losses.py\<close> is missing.
\<close>

definition true_positives :: "real list \<Rightarrow> real list \<Rightarrow> real" where
  "true_positives y_true y_pred = sum_list (map2 (\<lambda>t p. p * t) y_true y_pred)"

definition false_positives :: "real list \<Rightarrow> real list \<Rightarrow> real" where
  "false_positives y_true y_pred = sum_list (map2 (\<lambda>t p. p * (1 - t)) y_true y_pred)"

definition false_negatives :: "real list \<Rightarrow> real list \<Rightarrow> real" where
  "false_negatives y_true y_pred = sum_list (map2 (\<lambda>t p. (1 - p) * t) y_true y_pred)"

definition true_negatives :: "real list \<Rightarrow> real list \<Rightarrow> real" where
  "true_negatives y_true y_pred = sum_list (map2 (\<lambda>t p. (1 - p) * (1 - t)) y_true y_pred)"

text \<open>
  Modelled from the spec: a division by zero in a metric yields the defined value 0;
  \<open>losses.py\<close> is missing.
\<close>

definition ratio :: "real \<Rightarrow> real \<Rightarrow> real" where
  "ratio a b = (if b = 0 then 0 else a / b)"

text \<open>
  Modelled from the spec: Jaccard index \<open>TP / (TP + FP + FN)\<close> and Dice coefficient
  \<open>2 TP / (2 TP + FP + FN)\<close> of a truth mask and real-valued predictions; \<open>losses.py\<close> is
  missing.
\<close>

definition jaccard_index :: "real list \<Rightarrow> real list \<Rightarrow> real" where
  "jaccard_index y_true y_pred =
     ratio (true_positives y_true y_pred)
       (true_positives y_true y_pred + false_positives y_true y_pred
          + false_negatives y_true y_pred)"

definition dice_coefficient :: "real list \<Rightarrow> real list \<Rightarrow> real" where
  "dice_coefficient y_true y_pred =
     ratio (2 * true_positives y_true y_pred)
       (2 * true_positives y_true y_pred + false_positives y_true y_pred
          + false_negatives y_true y_pred)"

text \<open>
  \<open>K.round\<close> of the Keras backend rounds to the nearest integer, and a tie to the even one.
\<close>

definition k_round :: "real \<Rightarrow> real" where
  "k_round x =
     (let f = \<lfloor>x\<rfloor>; d = x - of_int f
      in if d < 1 / 2 then of_int f
         else if 1 / 2 < d then of_int f + 1
         else if even f then of_int f else of_int f + 1)"

text \<open>
  Modelled from the spec: the loss and the six metrics that \<open>tests/test_losses.py\<close> imports
  from the missing \<open>losses.py\<close>. Jaccard loss is one minus the Jaccard index; recall is
  \<open>TP / (TP + FN)\<close>, precision \<open>TP / (TP + FP)\<close>, specificity \<open>TN / (TN + FP)\<close>, and F1 is the
  Dice coefficient. The fixtures of the tests fix one point that the specification leaves
  open: the loss works on the real-valued predictions, while each of the six metrics first
  rounds the predictions to 0 or 1 (a prediction of 0.25 counts as 0 and one of 0.75 as 1
  in the sixth and seventh case of every metric test).
\<close>

definition JaccardIndexLoss :: "real list \<Rightarrow> real list \<Rightarrow> real" where
  "JaccardIndexLoss y_true y_pred = 1 - jaccard_index y_true y_pred"

definition JaccardIndexMetric :: "real list \<Rightarrow> real list \<Rightarrow> real" where
  "JaccardIndexMetric y_true y_pred = jaccard_index y_true (map k_round y_pred)"

definition DiceCoefMetric :: "real list \<Rightarrow> real list \<Rightarrow> real" where
  "DiceCoefMetric y_true y_pred = dice_coefficient y_true (map k_round y_pred)"

definition recall :: "real list \<Rightarrow> real list \<Rightarrow> real" where
  "recall y_true y_pred =
     ratio (true_positives y_true (map k_round y_pred))
       (true_positives y_true (map k_round y_pred)
          + false_negatives y_true (map k_round y_pred))"

definition precision :: "real list \<Rightarrow> real list \<Rightarrow> real" where
  "precision y_true y_pred =
     ratio (true_positives y_true (map k_round y_pred))
       (true_positives y_true (map k_round y_pred)
          + false_positives y_true (map k_round y_pred))"

definition specificity :: "real list \<Rightarrow> real list \<Rightarrow> real" where
  "specificity y_true y_pred =
     ratio (true_negatives y_true (map k_round y_pred))
       (true_negatives y_true (map k_round y_pred)
          + false_positives y_true (map k_round y_pred))"

definition f1_score :: "real list \<Rightarrow> real list \<Rightarrow> real" where
  "f1_score y_true y_pred = dice_coefficient y_true (map k_round y_pred)"

text \<open>
  The fixtures of \<open>tests/test_losses.py\<close>. All seven test classes are parametrized with the
  same seven pairs \<open>(y_true, y_pred)\<close>, each one sample of 2 by 2 pixels, here flattened; they
  differ in the expected values.
\<close>

definition fixture_inputs :: "(real list \<times> real list) list" where
  "fixture_inputs =
     [([1, 1, 1, 1], [1, 1, 1, 1]),
      ([0, 1, 1, 1], [1, 1, 1, 1]),
      ([0, 1, 0, 1], [1, 1, 1, 1]),
      ([0, 0, 0, 1], [1, 1, 1, 1]),
      ([0, 0, 0, 0], [1, 1, 1, 1]),
      ([1, 1, 0, 0], [25 / 100, 25 / 100, 0, 0]),
      ([1, 1, 0, 0], [75 / 100, 75 / 100, 0, 0])]"

definition test_jaccard_index_loss_expected :: "real list" where
  "test_jaccard_index_loss_expected = [0, 25 / 100, 5 / 10, 75 / 100, 1, 75 / 100, 25 / 100]"

definition test_jaccard_index_metric_expected :: "real list" where
  "test_jaccard_index_metric_expected = [1, 75 / 100, 5 / 10, 25 / 100, 0, 0, 1]"

definition test_dice_coef_metric_expected :: "real list" where
  "test_dice_coef_metric_expected =
     [1, 85714286 / 100000000, 66666666 / 100000000, 4 / 10, 0, 0, 1]"

definition test_recall_expected :: "real list" where
  "test_recall_expected = [1, 1, 1, 1, 0, 0, 1]"

definition test_precision_expected :: "real list" where
  "test_precision_expected = [1, 75 / 100, 5 / 10, 25 / 100, 0, 0, 1]"

definition test_specificity_expected :: "real list" where
  "test_specificity_expected = [0, 0, 0, 0, 0, 1, 1]"

definition test_f1_score_expected :: "real list" where
  "test_f1_score_expected =
     [1, 85714286 / 100000000, 66666666 / 100000000, 4 / 10, 0, 0, 1]"

text \<open>
  \<open>tf.debugging.assert_near(x, y)\<close> with its default tolerances for 32-bit floats:
  \<open>|x - y| <= atol + rtol * |y|\<close> with \<open>atol = rtol = 10 * 2^-23\<close>.
\<close>

definition assert_near :: "real \<Rightarrow> real \<Rightarrow> bool" where
  "assert_near x y = (\<bar>x - y\<bar> \<le> 10 / 2 ^ 23 + 10 / 2 ^ 23 * \<bar>y\<bar>)"

text \<open>A test passes when the function is near the expected value on every fixture.\<close>

definition test_passes :: "(real list \<Rightarrow> real list \<Rightarrow> real) \<Rightarrow> real list \<Rightarrow> bool" where
  "test_passes f expected =
     list_all (\<lambda>((y_true, y_pred), e). assert_near (f y_true y_pred) e)
       (zip fixture_inputs expected)"

section \<open>Properties of the shuffle\<close>


lemma length_swap [simp]: "length (swap i j xs) = length xs"
  by (simp add: swap_def)

lemma length_shuffle_loop [simp]: "length (shuffle_loop ri k g xs) = length xs"
  by (induction k arbitrary: g xs) (auto split: prod.splits)

lemma swap_map: "i < length xs \<Longrightarrow> j < length xs \<Longrightarrow> swap i j (map f xs) = map f (swap i j xs)"
  by (simp add: swap_def map_update)

lemma mset_swap': "i < length xs \<Longrightarrow> j < length xs \<Longrightarrow> mset (swap i j xs) = mset xs"
  unfolding swap_def by (rule mset_swap)

lemma shuffle_loop_map:
  assumes "\<forall>g i. fst (ri g i) \<le> i" and "k < length xs"
  shows "shuffle_loop ri k g (map f xs) = map f (shuffle_loop ri k g xs)"
  using assms(2)
proof (induction k arbitrary: g xs)
  case 0
  then show ?case by simp
next
  case (Suc k)
  obtain j g' where r: "ri g (Suc k) = (j, g')" by (cases "ri g (Suc k)")
  have "fst (ri g (Suc k)) \<le> Suc k" using assms(1) by blast
  then have j: "j < length xs" using r Suc.prems by simp
  show ?case using Suc.IH[of "swap (Suc k) j xs" g'] Suc.prems j r
    by (simp add: swap_map)
qed

lemma shuffle_loop_mset:
  assumes "\<forall>g i. fst (ri g i) \<le> i" and "k < length xs"
  shows "mset (shuffle_loop ri k g xs) = mset xs"
  using assms(2)
proof (induction k arbitrary: g xs)
  case 0
  then show ?case by simp
next
  case (Suc k)
  obtain j g' where r: "ri g (Suc k) = (j, g')" by (cases "ri g (Suc k)")
  have "fst (ri g (Suc k)) \<le> Suc k" using assms(1) by blast
  then have j: "j < length xs" using r Suc.prems by simp
  show ?case using Suc.IH[of "swap (Suc k) j xs" g'] Suc.prems j r
    by (simp add: mset_swap')
qed

lemma shuffle_map:
  assumes "\<forall>g i. fst (ri g i) \<le> i"
  shows "shuffle mk ri seed (map f xs) = map f (shuffle mk ri seed xs)"
proof (cases "xs = []")
  case True
  then show ?thesis by (simp add: shuffle_def)
next
  case False
  then have "length xs - 1 < length xs" by (cases xs) auto
  then show ?thesis using shuffle_loop_map[OF assms] by (simp add: shuffle_def)
qed

lemma shuffle_mset:
  assumes "\<forall>g i. fst (ri g i) \<le> i"
  shows "mset (shuffle mk ri seed xs) = mset xs"
proof (cases "xs = []")
  case True
  then show ?thesis by (simp add: shuffle_def)
next
  case False
  then have "length xs - 1 < length xs" by (cases xs) auto
  then show ?thesis using shuffle_loop_mset[OF assms] by (simp add: shuffle_def)
qed

lemma shuffle_by_perm:
  assumes "\<forall>g i. fst (ri g i) \<le> i"
  shows "shuffle mk ri seed xs = map (\<lambda>i. xs ! i) (shuffle_perm mk ri seed (length xs))"
proof -
  have "xs = map (\<lambda>i. xs ! i) [0..<length xs]" by (simp add: map_nth)
  then have "shuffle mk ri seed xs = shuffle mk ri seed (map (\<lambda>i. xs ! i) [0..<length xs])" by simp
  also have "\<dots> = map (\<lambda>i. xs ! i) (shuffle mk ri seed [0..<length xs])"
    by (rule shuffle_map[OF assms])
  finally show ?thesis by (simp add: shuffle_perm_def)
qed

lemma all_same_length_iff:
  "list_all (\<lambda>array. length array = length (arrays ! 0)) arrays
     \<longleftrightarrow> (\<forall>a \<in> set arrays. \<forall>b \<in> set arrays. length a = length b)"
proof (cases arrays)
  case Nil
  then show ?thesis by simp
next
  case (Cons x xs)
  have "(\<forall>a \<in> set arrays. length a = length x)
      \<longleftrightarrow> (\<forall>a \<in> set arrays. \<forall>b \<in> set arrays. length a = length b)"
  proof
    assume h: "\<forall>a \<in> set arrays. length a = length x"
    show "\<forall>a \<in> set arrays. \<forall>b \<in> set arrays. length a = length b"
    proof (intro ballI)
      fix a b assume "a \<in> set arrays" "b \<in> set arrays"
      then have "length a = length x" "length b = length x" using h by blast+
      then show "length a = length b" by simp
    qed
  next
    assume h: "\<forall>a \<in> set arrays. \<forall>b \<in> set arrays. length a = length b"
    have "x \<in> set arrays" using Cons by simp
    then show "\<forall>a \<in> set arrays. length a = length x" using h by blast
  qed
  moreover have "arrays ! 0 = x" using Cons by simp
  ultimately show ?thesis by (simp add: list_all_iff)
qed

lemma shuffle_each_valid:
  "valid_seed seed \<Longrightarrow>
     shuffle_each mk ri seed arrays = (map (shuffle mk ri seed) arrays, None)"
  by (induction arrays) simp_all

lemma shuffle_each_invalid:
  "\<not> valid_seed seed \<Longrightarrow> arrays \<noteq> [] \<Longrightarrow>
     shuffle_each mk ri seed arrays = (arrays, Some ValueError)"
  by (cases arrays) simp_all

text \<open>
  Claim C8. For every list of arrays of equal first-dimension length \<open>n\<close> and every seed that
  NumPy accepts, \<open>shuffle_arrays_together\<close> raises nothing and replaces every array by its
  image under one and the same index list \<open>shuffle_perm seed n\<close>, which depends on the
  generator, the seed and the length only and is a permutation of \<open>0, ..., n - 1\<close>. Rows that
  share an index before the call therefore share an index after it (data and labels stay
  paired), and the result is a function of the inputs and the seed. For a seed that NumPy
  rejects, a non-empty list is left as it was and \<open>ValueError\<close> is raised, so the pairing is
  kept there as well.
\<close>

theorem shuffle_arrays_together_same_permutation:
  assumes "\<forall>g i. fst (random_interval g i) \<le> i"
    and "\<forall>array \<in> set arrays. length array = n"
  shows "(valid_seed seed \<or> arrays = [] \<longrightarrow>
            shuffle_arrays_together RandomState random_interval arrays seed =
              (map (\<lambda>array. map (\<lambda>i. array ! i)
                     (shuffle_perm RandomState random_interval seed n)) arrays, None))
         \<and> (\<not> valid_seed seed \<longrightarrow> arrays \<noteq> [] \<longrightarrow>
            shuffle_arrays_together RandomState random_interval arrays seed =
              (arrays, Some ValueError))
         \<and> mset (shuffle_perm RandomState random_interval seed n) = mset [0..<n]"
proof -
  have len: "list_all (\<lambda>array. length array = length (arrays ! 0)) arrays"
  proof (cases arrays)
    case Nil
    then show ?thesis by simp
  next
    case (Cons a as)
    then show ?thesis using assms(2) by (auto simp: list_all_iff)
  qed
  have same: "map (shuffle RandomState random_interval seed) arrays =
      map (\<lambda>array. map (\<lambda>i. array ! i)
             (shuffle_perm RandomState random_interval seed n)) arrays"
  proof (rule map_cong[OF refl])
    fix array assume "array \<in> set arrays"
    then have "length array = n" using assms(2) by blast
    then show "shuffle RandomState random_interval seed array =
        map (\<lambda>i. array ! i) (shuffle_perm RandomState random_interval seed n)"
      using shuffle_by_perm[OF assms(1), of RandomState seed array] by simp
  qed
  have perm: "mset (shuffle_perm RandomState random_interval seed n) = mset [0..<n]"
    unfolding shuffle_perm_def by (rule shuffle_mset[OF assms(1)])
  have ok: "shuffle_arrays_together RandomState random_interval arrays seed =
      (map (\<lambda>array. map (\<lambda>i. array ! i)
             (shuffle_perm RandomState random_interval seed n)) arrays, None)"
    if "valid_seed seed \<or> arrays = []"
  proof (cases "arrays = []")
    case True
    then show ?thesis by (simp add: shuffle_arrays_together_def)
  next
    case False
    then have "valid_seed seed" using that by simp
    then show ?thesis
      using len same by (simp add: shuffle_arrays_together_def shuffle_each_valid)
  qed
  have bad: "shuffle_arrays_together RandomState random_interval arrays seed =
      (arrays, Some ValueError)"
    if "\<not> valid_seed seed" "arrays \<noteq> []"
    using len that by (simp add: shuffle_arrays_together_def shuffle_each_invalid)
  show ?thesis using ok bad perm by blast
qed

text \<open>
  The theorem at a small linear congruential generator, seed 2, and a data array paired with
  a label array: both are rearranged by the index list \<open>[3, 0, 1, 2]\<close>.
\<close>

theorem shuffle_arrays_together_same_permutation_witness:
  "shuffle_arrays_together (\<lambda>s. nat s) (\<lambda>g i. (g mod Suc i, 5 * g + 3))
      [[10, 20, 30, 40 :: int], [1, 2, 3, 4]] 2
     = ([[40, 10, 20, 30], [4, 1, 2, 3]], None)
   \<and> mset (shuffle_perm (\<lambda>s. nat s) (\<lambda>g i. (g mod Suc i, 5 * g + 3)) 2 4) = mset [0..<4]"
proof -
  have h1: "\<forall>g i. fst ((\<lambda>g i. (g mod Suc i, 5 * g + 3)) g i) \<le> i"
    by (simp add: less_Suc_eq_le[symmetric])
  have h2: "\<forall>array \<in> set [[10, 20, 30, 40 :: int], [1, 2, 3, 4]]. length array = 4"
    by simp
  have h3: "valid_seed 2 \<or> [[10, 20, 30, 40 :: int], [1, 2, 3, 4]] = []"
    by (simp add: valid_seed_def)
  have p: "shuffle_perm (\<lambda>s. nat s) (\<lambda>g i. (g mod Suc i, 5 * g + 3)) 2 4 = [3, 0, 1, 2]"
    by code_simp
  note t = shuffle_arrays_together_same_permutation[OF h1 h2, of 2 "\<lambda>s. nat s"]
  have a: "shuffle_arrays_together (\<lambda>s. nat s) (\<lambda>g i. (g mod Suc i, 5 * g + 3))
      [[10, 20, 30, 40 :: int], [1, 2, 3, 4]] 2
     = ([[40, 10, 20, 30], [4, 1, 2, 3]], None)"
    unfolding t[THEN conjunct1, THEN mp, OF h3] p by simp
  show ?thesis using a t[THEN conjunct2, THEN conjunct2] by (rule conjI)
qed

text \<open>
  Claim C9, as the code has it. \<open>shuffle_arrays_together\<close> raises \<open>AssertionError\<close> and leaves
  every array as it was whenever two of the arrays differ in their length along the first
  dimension. When all lengths are equal it raises no \<open>AssertionError\<close>: it raises nothing if
  the seed is one that \<open>RandomState\<close> accepts (\<open>0\<close> to \<open>2^32 - 1\<close>) or the list is empty, and
  otherwise it raises \<open>ValueError\<close>, again with every array as it was.
\<close>

theorem shuffle_arrays_together_assertion:
  "((\<exists>a \<in> set arrays. \<exists>b \<in> set arrays. length a \<noteq> length b) \<longrightarrow>
      shuffle_arrays_together RandomState random_interval arrays seed
        = (arrays, Some AssertionError))
   \<and> ((\<forall>a \<in> set arrays. \<forall>b \<in> set arrays. length a = length b) \<longrightarrow>
        (valid_seed seed \<or> arrays = [] \<longrightarrow>
           snd (shuffle_arrays_together RandomState random_interval arrays seed) = None)
      \<and> (\<not> valid_seed seed \<longrightarrow> arrays \<noteq> [] \<longrightarrow>
           shuffle_arrays_together RandomState random_interval arrays seed
             = (arrays, Some ValueError)))"
proof (intro conjI impI)
  assume "\<exists>a \<in> set arrays. \<exists>b \<in> set arrays. length a \<noteq> length b"
  then have "\<not> (\<forall>a \<in> set arrays. \<forall>b \<in> set arrays. length a = length b)"
    by blast
  then have "\<not> list_all (\<lambda>array. length array = length (arrays ! 0)) arrays"
    unfolding all_same_length_iff .
  then show "shuffle_arrays_together RandomState random_interval arrays seed
      = (arrays, Some AssertionError)"
    by (simp add: shuffle_arrays_together_def)
next
  assume "\<forall>a \<in> set arrays. \<forall>b \<in> set arrays. length a = length b"
  then have len: "list_all (\<lambda>array. length array = length (arrays ! 0)) arrays"
    unfolding all_same_length_iff .
  assume "valid_seed seed \<or> arrays = []"
  then show "snd (shuffle_arrays_together RandomState random_interval arrays seed) = None"
  proof
    assume "valid_seed seed"
    then show ?thesis
      using len by (simp add: shuffle_arrays_together_def shuffle_each_valid)
  next
    assume "arrays = []"
    then show ?thesis by (simp add: shuffle_arrays_together_def)
  qed
next
  assume "\<forall>a \<in> set arrays. \<forall>b \<in> set arrays. length a = length b"
  then have len: "list_all (\<lambda>array. length array = length (arrays ! 0)) arrays"
    unfolding all_same_length_iff .
  assume "\<not> valid_seed seed" "arrays \<noteq> []"
  then show "shuffle_arrays_together RandomState random_interval arrays seed
      = (arrays, Some ValueError)"
    using len by (simp add: shuffle_arrays_together_def shuffle_each_invalid)
qed

text \<open>
  The theorem at a list of arrays of lengths 2 and 1, which is rejected unchanged, and at a
  list of two arrays of length 2 with the seeds 0 (accepted) and 2^32 (rejected by
  \<open>RandomState\<close>).
\<close>

theorem shuffle_arrays_together_assertion_witness:
  "shuffle_arrays_together (\<lambda>s. nat s) (\<lambda>g i. (g mod Suc i, 5 * g + 3))
      [[1, 2 :: int], [3]] 0 = ([[1, 2], [3]], Some AssertionError)
   \<and> snd (shuffle_arrays_together (\<lambda>s. nat s) (\<lambda>g i. (g mod Suc i, 5 * g + 3))
      [[1, 2 :: int], [3, 4]] 0) = None
   \<and> shuffle_arrays_together (\<lambda>s. nat s) (\<lambda>g i. (g mod Suc i, 5 * g + 3))
      [[1, 2 :: int], [3, 4]] (2 ^ 32) = ([[1, 2], [3, 4]], Some ValueError)"
proof -
  have h1: "\<exists>a \<in> set [[1, 2 :: int], [3]]. \<exists>b \<in> set [[1, 2 :: int], [3]].
      length a \<noteq> length b"
    by auto
  have h2: "\<forall>a \<in> set [[1, 2 :: int], [3, 4]]. \<forall>b \<in> set [[1, 2 :: int], [3, 4]].
      length a = length b"
    by simp
  have h3: "valid_seed 0 \<or> [[1, 2 :: int], [3, 4]] = []"
    by (simp add: valid_seed_def)
  have h4: "\<not> valid_seed (2 ^ 32)"
    by (simp add: valid_seed_def)
  have h5: "[[1, 2 :: int], [3, 4]] \<noteq> []"
    by simp
  have a: "shuffle_arrays_together (\<lambda>s. nat s) (\<lambda>g i. (g mod Suc i, 5 * g + 3))
      [[1, 2 :: int], [3]] 0 = ([[1, 2], [3]], Some AssertionError)"
    by (rule shuffle_arrays_together_assertion[THEN conjunct1, THEN mp, OF h1])
  have b: "snd (shuffle_arrays_together (\<lambda>s. nat s) (\<lambda>g i. (g mod Suc i, 5 * g + 3))
      [[1, 2 :: int], [3, 4]] 0) = None"
    by (rule shuffle_arrays_together_assertion[THEN conjunct2, THEN mp, OF h2,
          THEN conjunct1, THEN mp, OF h3])
  have c: "shuffle_arrays_together (\<lambda>s. nat s) (\<lambda>g i. (g mod Suc i, 5 * g + 3))
      [[1, 2 :: int], [3, 4]] (2 ^ 32) = ([[1, 2], [3, 4]], Some ValueError)"
    by (rule shuffle_arrays_together_assertion[THEN conjunct2, THEN mp, OF h2,
          THEN conjunct2, THEN mp, OF h4, THEN mp, OF h5])
  show ?thesis using a b c by (intro conjI)
qed

text \<open>
  The claim as the specification words it, that nothing is raised whenever all lengths are
  equal, fails at two arrays of length 2 and the seed \<open>-1\<close>: the assertion passes and
  \<open>RandomState(-1)\<close> raises \<open>ValueError\<close>.
\<close>

theorem shuffle_arrays_together_never_raises_counterexample:
  "map length [[1, 2 :: int], [3, 4]] = [2, 2]
   \<and> shuffle_arrays_together (\<lambda>s. nat s) (\<lambda>g i. (g mod Suc i, 5 * g + 3))
        [[1, 2 :: int], [3, 4]] (- 1) = ([[1, 2], [3, 4]], Some ValueError)"
  by (simp add: shuffle_arrays_together_def valid_seed_def)

section \<open>Properties of the index extraction\<close>


lemma set_unique [simp]: "set (unique xs) = set xs"
  by (simp add: unique_def)

lemma distinct_unique [simp]: "distinct (unique xs)"
  by (simp add: unique_def)

lemma set_setdiff1d [simp]: "set (setdiff1d ar1 ar2) = set ar1 - set ar2"
  by (auto simp: setdiff1d_def)

lemma length_where_eq: "length (where_eq labels c) = count_list labels c"
proof -
  have "filter (\<lambda>l. l = c) (map (\<lambda>i. labels ! i) [0..<length labels])
      = map (\<lambda>i. labels ! i) (filter (\<lambda>i. labels ! i = c) [0..<length labels])"
    by (simp add: filter_map comp_def)
  then have "length (filter (\<lambda>l. l = c) labels) = length (where_eq labels c)"
    by (simp add: map_nth where_eq_def)
  moreover have "count_list labels c = length (filter (\<lambda>l. l = c) labels)"
    by (induction labels) auto
  ultimately show ?thesis by simp
qed

lemma filter_where_eq_same:
  "filter (\<lambda>i. labels ! i = c) (take k (where_eq labels c)) = take k (where_eq labels c)"
proof -
  have "\<forall>i \<in> set (take k (where_eq labels c)). labels ! i = c"
    using set_take_subset[of k "where_eq labels c"] by (auto simp: where_eq_def)
  then show ?thesis by (simp add: filter_id_conv)
qed

lemma filter_where_eq_other:
  "l \<noteq> c \<Longrightarrow> filter (\<lambda>i. labels ! i = c) (take k (where_eq labels l)) = []"
proof -
  assume "l \<noteq> c"
  have "\<forall>i \<in> set (take k (where_eq labels l)). labels ! i = l"
    using set_take_subset[of k "where_eq labels l"] by (auto simp: where_eq_def)
  with \<open>l \<noteq> c\<close> show ?thesis by (auto simp: filter_empty_conv)
qed

lemma concat_map_single:
  assumes "distinct ls" and "c \<in> set ls" and "\<And>l. l \<in> set ls \<Longrightarrow> l \<noteq> c \<Longrightarrow> f l = []"
  shows "concat (map f ls) = f c"
  using assms
proof (induction ls)
  case Nil
  then show ?case by simp
next
  case (Cons a ls)
  show ?case
  proof (cases "a = c")
    case True
    then have "c \<notin> set ls" using Cons.prems(1) by simp
    then have "\<forall>l \<in> set ls. f l = []" using Cons.prems(3) by auto
    then have "concat (map f ls) = []" by simp
    then show ?thesis using True by simp
  next
    case False
    then have "f a = []" using Cons.prems(3) by simp
    moreover have "concat (map f ls) = f c"
      using Cons.IH Cons.prems False by auto
    ultimately show ?thesis by simp
  qed
qed

lemma stratified_class_part:
  assumes "c \<in> set labels"
  shows "filter (\<lambda>i. labels ! i = c)
           (concat (map (\<lambda>l. take (k l) (where_eq labels l)) (unique labels)))
         = take (k c) (where_eq labels c)"
proof -
  have "filter (\<lambda>i. labels ! i = c)
           (concat (map (\<lambda>l. take (k l) (where_eq labels l)) (unique labels)))
      = concat (map (\<lambda>l. filter (\<lambda>i. labels ! i = c) (take (k l) (where_eq labels l)))
           (unique labels))"
    by (simp add: filter_concat comp_def)
  also have "\<dots> = filter (\<lambda>i. labels ! i = c) (take (k c) (where_eq labels c))"
    by (rule concat_map_single) (use assms in \<open>simp_all add: filter_where_eq_other\<close>)
  finally show ?thesis by (simp add: filter_where_eq_same)
qed

text \<open>
  What holds of every successful split: the test indices are the complement of the indices
  first selected for training, the final train indices are those first selected without
  the validation indices, and the final train indices meet neither of the other two sets.
\<close>

lemma split_indices_sets:
  assumes "split_indices n labels train_size val_size stratified = Inr (tr, va, te)"
  shows "\<exists>sup. get_set_indices labels train_size stratified = Inr (IntIndices sup)
           \<and> set te = {0..<n} - set sup
           \<and> set tr = set sup - set va
           \<and> set tr \<inter> set va = {}
           \<and> set tr \<inter> set te = {}"
  using assms
  by (auto simp: split_indices_def split: sum.splits indices.splits)





section \<open>Properties of the reassembly\<close>

lemma has_shape_nth: "has_shape h w img \<Longrightarrow> y < h \<Longrightarrow> length (img ! y) = w"
  by (auto simp: has_shape_def list_all_length)

lemma has_shapeI:
  "length img = h \<Longrightarrow> (\<And>y. y < h \<Longrightarrow> length (img ! y) = w) \<Longrightarrow> has_shape h w img"
  by (auto simp: has_shape_def list_all_length)

lemma has_shape_full: "has_shape h w (full h w v)"
  by (simp add: has_shape_def full_def list_all_length)

lemma full_nth: "y < h \<Longrightarrow> x < w \<Longrightarrow> full h w v ! y ! x = v"
  by (simp add: full_def)

lemma has_shape_assign_block:
  "has_shape h w img \<Longrightarrow> has_shape h w (assign_block y0 x0 p patch img)"
  by (auto simp: has_shape_def assign_block_def list_all_length)

lemma assign_block_nth:
  assumes "has_shape h w img" "y < h" "x < w"
  shows "assign_block y0 x0 p patch img ! y ! x =
           (if y0 \<le> y \<and> y < y0 + p \<and> x0 \<le> x \<and> x < x0 + p
            then broadcast_value patch (y - y0) (x - x0)
            else img ! y ! x)"
proof -
  have "length img = h" "length (img ! y) = w"
    using assms has_shape_nth[OF assms(1,2)] by (simp_all add: has_shape_def)
  then show ?thesis using assms(2,3) by (simp add: assign_block_def)
qed

lemma in_block_iff:
  "0 < p \<Longrightarrow> (r * p \<le> y \<and> y < r * p + p) \<longleftrightarrow> y div p = (r::nat)"
proof
  assume p: "0 < p" and h: "r * p \<le> y \<and> y < r * p + p"
  have "y < (Suc r) * p" using h by simp
  then show "y div p = r"
    using h p by (metis div_nat_eqI mult.commute)
next
  assume p: "0 < p" and d: "y div p = r"
  have "y = r * p + y mod p" using d div_mult_mod_eq[of y p] by simp
  moreover have "y mod p < p" using p by simp
  ultimately show "r * p \<le> y \<and> y < r * p + p" by linarith
qed

lemma sub_block_mod: "y div p = r \<Longrightarrow> y - r * p = y mod (p::nat)"
  by (metis minus_div_mult_eq_mod)


lemma inner_loop:
  assumes "0 < p" and "has_shape h w img"
  shows "has_shape h w (fold (\<lambda>c img. assign_block (r * p) (c * p) p (grid ! r ! c) img) cs img)
       \<and> (\<forall>y<h. \<forall>x<w.
             fold (\<lambda>c img. assign_block (r * p) (c * p) p (grid ! r ! c) img) cs img ! y ! x =
               (if y div p = r \<and> x div p \<in> set cs
                then broadcast_value (grid ! r ! (x div p)) (y mod p) (x mod p)
                else img ! y ! x))"
  using assms(2)
proof (induction cs arbitrary: img)
  case Nil
  then show ?case by simp
next
  case (Cons c cs)
  let ?img' = "assign_block (r * p) (c * p) p (grid ! r ! c) img"
  have sh: "has_shape h w ?img'"
    by (rule has_shape_assign_block[OF Cons.prems])
  have first: "?img' ! y ! x =
      (if y div p = r \<and> x div p = c
       then broadcast_value (grid ! r ! c) (y mod p) (x mod p) else img ! y ! x)"
    if "y < h" "x < w" for y x
    using assign_block_nth[OF Cons.prems that, of "r * p" "c * p" p "grid ! r ! c"]
      in_block_iff[OF assms(1), of r y] in_block_iff[OF assms(1), of c x]
      sub_block_mod[of y p r] sub_block_mod[of x p c]
    by auto
  show ?case
    using Cons.IH[OF sh] first by auto
qed

lemma outer_loop:
  assumes "0 < p" and "has_shape h w img"
  shows "has_shape h w
           (fold (\<lambda>r img. fold (\<lambda>c img. assign_block (r * p) (c * p) p (grid ! r ! c) img)
                            cs img) rs img)
       \<and> (\<forall>y<h. \<forall>x<w.
             fold (\<lambda>r img. fold (\<lambda>c img. assign_block (r * p) (c * p) p (grid ! r ! c) img)
                            cs img) rs img ! y ! x =
               (if y div p \<in> set rs \<and> x div p \<in> set cs
                then broadcast_value (grid ! (y div p) ! (x div p)) (y mod p) (x mod p)
                else img ! y ! x))"
  using assms(2)
proof (induction rs arbitrary: img)
  case Nil
  then show ?case by simp
next
  case (Cons r rs)
  let ?img' = "fold (\<lambda>c img. assign_block (r * p) (c * p) p (grid ! r ! c) img) cs img"
  note inner = inner_loop[OF assms(1) Cons.prems, of r grid cs]
  have sh: "has_shape h w ?img'"
    using inner by blast
  have first: "?img' ! y ! x =
      (if y div p = r \<and> x div p \<in> set cs
       then broadcast_value (grid ! r ! (x div p)) (y mod p) (x mod p) else img ! y ! x)"
    if "y < h" "x < w" for y x
    using inner that by blast
  show ?case
    using Cons.IH[OF sh] first by auto
qed


lemma rearrange_nth:
  assumes "0 < r * c" and "length preds = r * c"
  shows "\<exists>grid. rearrange r c preds = Inr grid
           \<and> (\<forall>i<r. \<forall>j<c. grid ! i ! j = preds ! (i * c + j))"
proof -
  have "take c (drop (i * c) preds) ! j = preds ! (i * c + j)" if "i < r" "j < c" for i j
  proof -
    have "i * c + c \<le> r * c"
      using that(1) by (metis Suc_leI mult_Suc mult_le_mono1 add.commute)
    then have "i * c + j < length preds" using that(2) assms(2) by linarith
    then show ?thesis using that(2) by simp
  qed
  then show ?thesis using assms by (simp add: rearrange_def)
qed

lemma broadcast_value_full_patch:
  assumes "has_shape p p patch" and "i < p" and "j < p"
  shows "broadcast_value patch i j = patch ! i ! j"
proof -
  have l: "length patch = p" using assms(1) by (simp add: has_shape_def)
  have "0 < p" using assms(2) by simp
  then have l0: "length (patch ! 0) = p" using has_shape_nth[OF assms(1)] by simp
  show ?thesis
    using assms(2,3) by (auto simp: broadcast_value_def broadcast_index_def l l0)
qed

lemma broadcastable_full_patch:
  assumes "has_shape p p patch" and "0 < p"
  shows "broadcastable p patch"
  using assms has_shape_nth[OF assms(1), of 0] by (simp add: broadcastable_def has_shape_def)

lemma get_img_pred_pixels:
  assumes "0 < p" and "0 < (H div p) * (W div p)"
    and "length preds = (H div p) * (W div p)"
    and "list_all (has_shape p p) preds"
  shows "\<exists>out. get_img_pred p (H, W) preds = Inr out \<and> has_shape H W out
           \<and> (\<forall>y<H. \<forall>x<W. out ! y ! x =
                 (if y div p < H div p \<and> x div p < W div p
                  then preds ! (y div p * (W div p) + x div p) ! (y mod p) ! (x mod p)
                  else PosInf))"
proof -
  obtain grid where g: "rearrange (H div p) (W div p) preds = Inr grid"
    and gn: "\<forall>i<H div p. \<forall>j<W div p. grid ! i ! j = preds ! (i * (W div p) + j)"
    using rearrange_nth[OF assms(2,3)] by blast
  have "preds \<noteq> []" using assms(2,3) by auto
  then have "has_shape p p (preds ! 0)"
    using assms(4) by (cases preds) simp_all
  then have bc: "broadcastable p (preds ! 0)"
    by (rule broadcastable_full_patch[OF _ assms(1)])
  define out where "out =
    fold (\<lambda>r img. fold (\<lambda>c img. assign_block (r * p) (c * p) p (grid ! r ! c) img)
                     [0..<W div p] img) [0..<H div p] (full H W PosInf)"
  have res: "get_img_pred p (H, W) preds = Inr out"
    using assms(1) g bc by (simp add: get_img_pred_def out_def)
  note loop = outer_loop[OF assms(1) has_shape_full[of H W PosInf],
      of grid "[0..<W div p]" "[0..<H div p]", folded out_def]
  have sh: "has_shape H W out" using loop by blast
  have px: "out ! y ! x =
      (if y div p < H div p \<and> x div p < W div p
       then preds ! (y div p * (W div p) + x div p) ! (y mod p) ! (x mod p) else PosInf)"
    if "y < H" "x < W" for y x
  proof (cases "y div p < H div p \<and> x div p < W div p")
    case True
    then have idx: "y div p * (W div p) + x div p < length preds"
      using assms(3)
      by (metis Suc_leI mult_Suc mult_le_mono1 add.commute add_less_cancel_left
          less_le_trans)
    then have "has_shape p p (preds ! (y div p * (W div p) + x div p))"
      using assms(4) by (simp add: list_all_length)
    then have "broadcast_value (preds ! (y div p * (W div p) + x div p)) (y mod p) (x mod p)
        = preds ! (y div p * (W div p) + x div p) ! (y mod p) ! (x mod p)"
      by (rule broadcast_value_full_patch)
        (rule mod_less_divisor[OF assms(1)])+
    moreover have "grid ! (y div p) ! (x div p) = preds ! (y div p * (W div p) + x div p)"
      using gn True by blast
    ultimately show ?thesis using loop that True by simp
  next
    case False
    then show ?thesis using loop that by (auto simp: full_nth)
  qed
  show ?thesis using res sh px by blast
qed

lemma grid_index_less:
  assumes "r < R" and "c < (C::nat)"
  shows "r * C + c < R * C"
proof -
  have "r * C + C \<le> R * C"
    using assms(1) by (metis Suc_leI mult_Suc mult_le_mono1 add.commute)
  then show ?thesis using assms(2) by linarith
qed

lemma dvd_block_fits:
  assumes "p dvd H" and "r < H div p"
  shows "r * p + p \<le> (H::nat)"
proof -
  have "Suc r * p \<le> (H div p) * p"
    using assms(2) by (intro mult_le_mono1) simp
  then show ?thesis using assms(1) by (simp add: ac_simps)
qed

lemma tile_nth:
  assumes "has_shape H W img" and "0 < H" and "n < (H div p) * (W div p)"
  shows "tile p img ! n =
           map (\<lambda>row. take p (drop ((n mod (W div p)) * p) row))
             (take p (drop ((n div (W div p)) * p) img))"
proof -
  have l: "length img = H" "length (img ! 0) = W"
    using assms(1,2) has_shape_nth[OF assms(1), of 0] by (simp_all add: has_shape_def)
  have c: "0 < W div p" using assms(3) by (cases "W div p") simp_all
  have "n div (W div p) < H div p"
    using assms(3) by (simp add: less_mult_imp_div_less)
  moreover have "n mod (W div p) < W div p" using c by simp
  ultimately show ?thesis
    using assms(3) by (simp add: tile_def l product_nth)
qed

lemma length_tile:
  assumes "has_shape H W img" and "0 < H"
  shows "length (tile p img) = (H div p) * (W div p)"
  using assms has_shape_nth[OF assms(1), of 0] by (simp add: tile_def has_shape_def)

lemma tile_shape:
  assumes "has_shape H W img" and "0 < H" and "p dvd H" and "p dvd W"
  shows "list_all (has_shape p p) (tile p img)"
proof -
  have "has_shape p p (tile p img ! n)" if n: "n < (H div p) * (W div p)" for n
  proof -
    have c: "0 < W div p" using n by (cases "W div p") simp_all
    have r: "n div (W div p) < H div p"
      using n by (simp add: less_mult_imp_div_less)
    have fr: "(n div (W div p)) * p + p \<le> H" by (rule dvd_block_fits[OF assms(3) r])
    have fc: "(n mod (W div p)) * p + p \<le> W"
      by (rule dvd_block_fits[OF assms(4)]) (use c in simp)
    have l: "length img = H" using assms(1) by (simp add: has_shape_def)
    have rows: "length (take p (drop ((n div (W div p)) * p) img)) = p"
      using fr l by simp
    have "length (take p (drop ((n mod (W div p)) * p) row)) = p"
      if "row \<in> set (take p (drop ((n div (W div p)) * p) img))" for row
    proof -
      have "row \<in> set img" using that by (meson in_set_dropD in_set_takeD)
      then have "length row = W" using assms(1) by (simp add: has_shape_def list_all_iff)
      then show ?thesis using fc by simp
    qed
    then show ?thesis
      unfolding tile_nth[OF assms(1,2) n] using rows
      by (simp add: has_shape_def list_all_iff)
  qed
  then show ?thesis
    using length_tile[OF assms(1,2), of p] by (simp add: list_all_length)
qed

lemma tile_pixel:
  assumes "has_shape H W img" and "0 < H" and "p dvd H" and "p dvd W"
    and "r < H div p" and "c < W div p" and "i < p" and "j < p"
  shows "tile p img ! (r * (W div p) + c) ! i ! j = img ! (r * p + i) ! (c * p + j)"
proof -
  have n: "r * (W div p) + c < (H div p) * (W div p)"
    by (rule grid_index_less[OF assms(5,6)])
  have d: "(r * (W div p) + c) div (W div p) = r" "(r * (W div p) + c) mod (W div p) = c"
    using assms(6) by simp_all
  have fr: "r * p + p \<le> H" by (rule dvd_block_fits[OF assms(3,5)])
  have fc: "c * p + p \<le> W" by (rule dvd_block_fits[OF assms(4,6)])
  have l: "length img = H" using assms(1) by (simp add: has_shape_def)
  have y: "r * p + i < H" using fr assms(7) by linarith
  then have lr: "length (img ! (r * p + i)) = W" by (rule has_shape_nth[OF assms(1)])
  show ?thesis
    unfolding tile_nth[OF assms(1,2) n] d
    using assms(7,8) fr fc l lr y by simp
qed

lemma dvd_div_less:
  assumes "p dvd H" and "y < (H::nat)"
  shows "y div p < H div p"
proof -
  have "H = (H div p) * p" using assms(1) by simp
  then show ?thesis using assms(2) by (metis less_mult_imp_div_less)
qed

lemma dvd_div_pos:
  assumes "p dvd H" and "0 < (H::nat)"
  shows "0 < H div p"
proof -
  have "H = (H div p) * p" using assms(1) by simp
  then show ?thesis using assms(2) by (cases "H div p") simp_all
qed

lemma get_img_pred_dvd:
  assumes "0 < p" and "p dvd H" and "p dvd W" and "0 < H" and "0 < W"
    and "length preds = (H div p) * (W div p)"
    and "list_all (has_shape p p) preds"
  shows "\<exists>out. get_img_pred p (H, W) preds = Inr out \<and> has_shape H W out
           \<and> (\<forall>y<H. \<forall>x<W. out ! y ! x =
                 preds ! (y div p * (W div p) + x div p) ! (y mod p) ! (x mod p))"
proof -
  have pos: "0 < (H div p) * (W div p)"
    using dvd_div_pos[OF assms(2,4)] dvd_div_pos[OF assms(3,5)] by simp
  obtain out where res: "get_img_pred p (H, W) preds = Inr out"
    and sh: "has_shape H W out"
    and px: "\<forall>y<H. \<forall>x<W. out ! y ! x =
                 (if y div p < H div p \<and> x div p < W div p
                  then preds ! (y div p * (W div p) + x div p) ! (y mod p) ! (x mod p)
                  else PosInf)"
    using get_img_pred_pixels[OF assms(1) pos assms(6,7)] by blast
  have "out ! y ! x = preds ! (y div p * (W div p) + x div p) ! (y mod p) ! (x mod p)"
    if "y < H" "x < W" for y x
    using px that dvd_div_less[OF assms(2) that(1)] dvd_div_less[OF assms(3) that(2)] by simp
  then show ?thesis using res sh by blast
qed





section \<open>Properties of the overlap metrics\<close>

lemma k_round_unit:
  assumes "0 \<le> p" and "p \<le> 1"
  shows "k_round p = (if 1 / 2 < p then 1 else 0)"
proof (cases "p = 1")
  case True
  then show ?thesis by (simp add: k_round_def)
next
  case False
  then have "p < 1" using assms(2) by simp
  then have "\<lfloor>p\<rfloor> = 0" using assms(1) by (simp add: floor_eq_iff)
  then show ?thesis by (simp add: k_round_def Let_def)
qed

lemma map_k_round_unit:
  assumes "list_all (\<lambda>p. 0 \<le> p \<and> p \<le> 1) y_pred"
  shows "map k_round y_pred = map (\<lambda>p. if 1 / 2 < p then 1 else 0) y_pred"
  using assms by (induction y_pred) (simp_all add: k_round_unit)

lemma map_k_round_binary:
  assumes "list_all (\<lambda>p. p = 0 \<or> p = 1) y_pred"
  shows "map k_round y_pred = y_pred"
  using assms by (induction y_pred) (auto simp: k_round_unit)

lemma true_positives_count:
  assumes "length y_true = length y_pred" and "list_all (\<lambda>t. t = 0 \<or> t = 1) y_true"
  shows "true_positives y_true (map (\<lambda>p. if 1 / 2 < p then 1 else 0) y_pred)
           = real (length (filter (\<lambda>(t, p). t = 1 \<and> 1 / 2 < p) (zip y_true y_pred)))"
  using assms by (induction y_true y_pred rule: list_induct2) (auto simp: true_positives_def)

lemma union_count:
  assumes "length y_true = length y_pred" and "list_all (\<lambda>t. t = 0 \<or> t = 1) y_true"
  shows "true_positives y_true (map (\<lambda>p. if 1 / 2 < p then 1 else 0) y_pred)
           + false_positives y_true (map (\<lambda>p. if 1 / 2 < p then 1 else 0) y_pred)
           + false_negatives y_true (map (\<lambda>p. if 1 / 2 < p then 1 else 0) y_pred)
           = real (length (filter (\<lambda>(t, p). t = 1 \<or> 1 / 2 < p) (zip y_true y_pred)))"
  using assms
  by (induction y_true y_pred rule: list_induct2)
     (auto simp: true_positives_def false_positives_def false_negatives_def)

lemma zero_masks_sums:
  assumes "list_all (\<lambda>t. t = 0) y_true" and "list_all (\<lambda>p. p = 0) y_pred"
  shows "true_positives y_true y_pred = 0 \<and> false_positives y_true y_pred = 0
           \<and> false_negatives y_true y_pred = 0"
  using assms
proof (induction y_true arbitrary: y_pred)
  case Nil
  then show ?case
    by (simp add: true_positives_def false_positives_def false_negatives_def)
next
  case (Cons t ts)
  show ?case
  proof (cases y_pred)
    case Nil
    then show ?thesis
      by (simp add: true_positives_def false_positives_def false_negatives_def)
  next
    case (Cons p ps)
    then show ?thesis
      using Cons.IH[of ps] Cons.prems
      by (simp add: true_positives_def false_positives_def false_negatives_def)
  qed
qed

lemma map_k_round_zero:
  assumes "list_all (\<lambda>p. p = 0) y_pred"
  shows "list_all (\<lambda>p. p = 0) (map k_round y_pred)"
  using assms by (induction y_pred) (simp_all add: k_round_def)

text \<open>
  The model meets every fixture of \<open>tests/test_losses.py\<close>: the loss without rounding, the
  six metrics with rounding.
\<close>

lemma fixtures_pass_jaccard_loss:
  "test_passes JaccardIndexLoss test_jaccard_index_loss_expected"
  by code_simp

lemma fixtures_pass_jaccard_metric:
  "test_passes JaccardIndexMetric test_jaccard_index_metric_expected"
  by code_simp

lemma fixtures_pass_dice:
  "test_passes DiceCoefMetric test_dice_coef_metric_expected"
  by code_simp

lemma fixtures_pass_recall:
  "test_passes recall test_recall_expected"
  by code_simp

lemma fixtures_pass_precision:
  "test_passes precision test_precision_expected"
  by code_simp

lemma fixtures_pass_specificity:
  "test_passes specificity test_specificity_expected"
  by code_simp

lemma fixtures_pass_f1:
  "test_passes f1_score test_f1_score_expected"
  by code_simp








end
